theory Spec2Isabelle
  imports Main "HOL-Library.Word" "HOL-Library.Signed_Division"
begin

section \<open>Machine values and memory\<close>

text \<open>
  The decoder of \<^verbatim>\<open>video_decode.c\<close> works on raw byte buffers addressed through
  \<^verbatim>\<open>uint8_t *\<close> pointers, on \<^verbatim>\<open>uint32_t\<close> byte counters and on \<^verbatim>\<open>int32_t\<close> /
  \<^verbatim>\<open>int64_t\<close> frame counters and timestamps.

  \<^item> A buffer is the memory reachable from its base pointer: a function from the byte
    offset to the byte stored there.
  \<^item> \<^verbatim>\<open>uint32_t\<close> values are \<open>32 word\<close>: their arithmetic wraps around, as in C.
  \<^item> Signed values are \<open>int\<close>. Signed overflow is undefined in C, so the model keeps
    signed arithmetic exact; a narrowing assignment from \<^verbatim>\<open>int64_t\<close> to \<^verbatim>\<open>int32_t\<close>
    is written out with \<open>to_int32\<close>, and division is C's (truncating, \<open>sdiv\<close>).
\<close>

type_synonym byte = "8 word"
type_synonym u32 = "32 word"
type_synonym memory = "nat \<Rightarrow> byte"

definition to_int32 :: "int \<Rightarrow> int" where
  "to_int32 x = signed_take_bit 31 x"

text \<open>
  \<^verbatim>\<open>memcpy(dst + d, src + s, n)\<close>: the \<open>n\<close> bytes of \<open>src\<close> from offset \<open>s\<close> are stored
  in \<open>dst\<close> from offset \<open>d\<close>; all other bytes of \<open>dst\<close> keep their value. The source
  bytes are those before the call.
\<close>

definition memcpy :: "memory \<Rightarrow> nat \<Rightarrow> memory \<Rightarrow> nat \<Rightarrow> nat \<Rightarrow> memory" where
  "memcpy dst d src s n i = (if d \<le> i \<and> i < d + n then src (s + (i - d)) else dst i)"

definition zero_memory :: memory where
  "zero_memory i = 0"

section \<open>The in-memory I/O adapter\<close>

text \<open>
  Modelled from the spec: \<^verbatim>\<open>struct buffer_data\<close> is declared in \<^verbatim>\<open>video_decode.h\<close>,
  which is not among the sources. It is the state of the custom-IO adapter of the
  specification, with the fields that \<^verbatim>\<open>read_memory\<close> and \<^verbatim>\<open>seek_memory\<close> use: the
  input bytes, the read cursor and the total size, the last two 32-bit signed as the
  source's \<^verbatim>\<open>int32_t\<close> arithmetic on them has it.
\<close>

record buffer_data =
  ptr :: memory
  offset_bytes :: int
  total_size_bytes :: int

text \<open>
  \<^verbatim>\<open>read_memory\<close> clamps the requested size to the bytes left, copies them from the
  cursor and advances the cursor. \<^verbatim>\<open>memcpy\<close> with a negative count (converted to a
  huge \<^verbatim>\<open>size_t\<close>) or from an address before the buffer is undefined: the model
  returns \<open>None\<close> there.
\<close>

definition read_memory ::
  "buffer_data \<Rightarrow> memory \<Rightarrow> int \<Rightarrow> (int \<times> memory \<times> buffer_data) option" where
  "read_memory input_buf buffer buf_size_bytes =
     (let bytes_remaining = total_size_bytes input_buf - offset_bytes input_buf;
          buf_size = (if bytes_remaining < buf_size_bytes then bytes_remaining
                      else buf_size_bytes)
      in if buf_size < 0 \<or> offset_bytes input_buf < 0 then None
         else Some (buf_size,
                    memcpy buffer 0 (ptr input_buf) (nat (offset_bytes input_buf)) (nat buf_size),
                    input_buf\<lparr>offset_bytes := offset_bytes input_buf + buf_size\<rparr>))"

text \<open>The \<open>whence\<close> values: \<^verbatim>\<open>stdio.h\<close>'s and FFmpeg's \<^verbatim>\<open>AVSEEK_SIZE\<close>.\<close>

definition SEEK_SET :: int where "SEEK_SET = 0"
definition SEEK_CUR :: int where "SEEK_CUR = 1"
definition SEEK_END :: int where "SEEK_END = 2"
definition AVSEEK_SIZE :: int where "AVSEEK_SIZE = 65536"

text \<open>
  \<^verbatim>\<open>seek_memory\<close>: the 64-bit offset is first narrowed to 32 bits; the \<^verbatim>\<open>switch\<close> keeps
  the order of the source's cases, with the \<^verbatim>\<open>default\<close> branch last. The result is
  the returned position and the updated adapter state.
\<close>

definition seek_memory :: "buffer_data \<Rightarrow> int \<Rightarrow> int \<Rightarrow> int \<times> buffer_data" where
  "seek_memory input_buf offset64 whence =
     (let offset = to_int32 offset64 in
      if whence = SEEK_CUR then
        (offset_bytes input_buf + offset,
         input_buf\<lparr>offset_bytes := offset_bytes input_buf + offset\<rparr>)
      else if whence = SEEK_END then
        (total_size_bytes input_buf - offset,
         input_buf\<lparr>offset_bytes := total_size_bytes input_buf - offset\<rparr>)
      else if whence = SEEK_SET then
        (offset, input_buf\<lparr>offset_bytes := offset\<rparr>)
      else if whence = AVSEEK_SIZE then
        (total_size_bytes input_buf, input_buf)
      else (offset_bytes input_buf, input_buf))"

section \<open>The decoder as seen by the sampler\<close>

text \<open>
  The demuxer and decoder are FFmpeg's. The sampler sees them through
  \<^verbatim>\<open>receive_frame\<close>, which yields the next frame, end of stream or a decode error,
  and through \<^verbatim>\<open>av_seek_frame\<close>. The model keeps what FFmpeg will deliver as part of
  the stream context:
  \<^item> \<open>upcoming\<close>: the results of the coming \<^verbatim>\<open>receive_frame\<close> calls, in order (end
    of stream once the list is empty);
  \<^item> \<open>seek_table\<close>: for a seek timestamp, the stream position the seek lands on, or
    \<open>None\<close> when \<^verbatim>\<open>av_seek_frame\<close> fails;
  \<^item> \<open>decode_calls\<close>: the number of \<^verbatim>\<open>receive_frame\<close> calls made so far;
  \<^item> \<open>sws_context_available\<close>: whether \<^verbatim>\<open>sws_getContext\<close> returns a scaling context
    for the picture size and pixel format of the codec context (not \<^verbatim>\<open>NULL\<close>);
  \<^item> \<open>frame_alloc_available\<close> and \<open>image_alloc_status\<close>: whether \<^verbatim>\<open>av_frame_alloc\<close>
    returns a frame, and the status that \<^verbatim>\<open>av_image_alloc\<close> returns for it.
  A frame carries its presentation timestamp and the RGB24 picture that \<^verbatim>\<open>sws_scale\<close>
  produces from it in \<^verbatim>\<open>frame_rgb->data[0]\<close> (rows \<open>linesize\<close> bytes apart).
  The other fields are those the source reads from \<^verbatim>\<open>struct video_stream_context\<close>,
  the video stream and the codec context.
\<close>

text \<open>
  Modelled from the spec: the status codes \<^verbatim>\<open>VID_DECODE_SUCCESS\<close>, \<^verbatim>\<open>VID_DECODE_EOF\<close>
  and \<^verbatim>\<open>VID_DECODE_FFMPEG_ERR\<close> are declared in \<^verbatim>\<open>video_decode.h\<close>, which is not among
  the sources. They are the three results of \<open>next_frame\<close> in the specification: a
  frame, end of stream, or a decode error.
\<close>

datatype status = VID_DECODE_SUCCESS | VID_DECODE_EOF | VID_DECODE_FFMPEG_ERR

record av_frame =
  pts :: int
  rgb :: memory

datatype decoded = Picture av_frame | DecodeError

text \<open>
  Modelled from the spec: \<^verbatim>\<open>struct video_stream_context\<close> is declared in
  \<^verbatim>\<open>video_decode.h\<close>, which is not among the sources. It is the StreamContext of the
  specification: the reusable decoded frame, the duration and the frame count, here
  with the time base and the start time of the selected stream, the picture size of
  the codec context and the state of the decoder described above.
\<close>

record video_stream_context =
  frame :: av_frame
  upcoming :: "decoded list"
  seek_table :: "int \<Rightarrow> decoded list option"
  decode_calls :: nat
  duration :: int
  nb_frames :: int
  start_time :: int
  time_base_num :: int
  time_base_den :: int
  width :: int
  height :: int
  linesize :: nat
  sws_context_available :: bool
  frame_alloc_available :: bool
  image_alloc_status :: int

definition AV_NOPTS_VALUE :: int where
  "AV_NOPTS_VALUE = - (2 ^ 63)"

definition receive_frame :: "video_stream_context \<Rightarrow> status \<times> video_stream_context" where
  "receive_frame vid_ctx =
     (case upcoming vid_ctx of
        [] \<Rightarrow> (VID_DECODE_EOF, vid_ctx\<lparr>decode_calls := decode_calls vid_ctx + 1\<rparr>)
      | Picture f # rest \<Rightarrow>
          (VID_DECODE_SUCCESS,
           vid_ctx\<lparr>frame := f, upcoming := rest, decode_calls := decode_calls vid_ctx + 1\<rparr>)
      | DecodeError # rest \<Rightarrow>
          (VID_DECODE_FFMPEG_ERR,
           vid_ctx\<lparr>upcoming := rest, decode_calls := decode_calls vid_ctx + 1\<rparr>))"

definition av_seek_frame :: "video_stream_context \<Rightarrow> int \<Rightarrow> int \<times> video_stream_context" where
  "av_seek_frame vid_ctx timestamp =
     (case seek_table vid_ctx timestamp of
        None \<Rightarrow> (- 1, vid_ctx)
      | Some fs \<Rightarrow> (0, vid_ctx\<lparr>upcoming := fs\<rparr>))"

section \<open>Packing a frame\<close>

text \<open>
  The row loop of \<^verbatim>\<open>copy_next_frame\<close>: each row of the converted picture is copied
  to \<open>dest + copied_bytes\<close>, the source advancing by \<open>linesize\<close> and the byte counter
  by \<open>bytes_per_row\<close>.
\<close>

function copy_rows ::
  "memory \<Rightarrow> memory \<Rightarrow> nat \<Rightarrow> nat \<Rightarrow> int \<Rightarrow> int \<Rightarrow> u32 \<Rightarrow> u32 \<Rightarrow> memory \<times> u32" where
  "copy_rows dest src next_row stride row_index rows copied_bytes bytes_per_row =
     (if row_index < rows then
        copy_rows (memcpy dest (unat copied_bytes) src next_row (unat bytes_per_row))
          src (next_row + stride) stride (row_index + 1) rows
          (copied_bytes + bytes_per_row) bytes_per_row
      else (dest, copied_bytes))"
  by pat_completeness auto
termination
  by (relation "measure (\<lambda>(dest, src, next_row, stride, row_index, rows, c, b).
        nat (rows - row_index))") auto

definition copy_next_frame ::
  "memory \<Rightarrow> video_stream_context \<Rightarrow> u32 \<Rightarrow> u32 \<Rightarrow> memory \<times> u32" where
  "copy_next_frame dest vid_ctx copied_bytes bytes_per_row =
     copy_rows dest (rgb (frame vid_ctx)) 0 (linesize vid_ctx) 0 (height vid_ctx)
       copied_bytes bytes_per_row"

section \<open>Padding by replaying the frames already written\<close>

text \<open>
  The \<^verbatim>\<open>while\<close> loop of \<^verbatim>\<open>loop_to_buffer_end\<close>. With a negative \<open>frame_number\<close> the
  remaining-frame counter only grows and the loop does not end: the model is a partial
  function, \<open>None\<close> where the loop does not return. Next to the buffer and the byte
  counter the model keeps the list of the copies made, each as the write position and
  the number of bytes copied there from the start of the buffer.
\<close>

partial_function (option) pad_loop ::
  "memory \<Rightarrow> u32 \<Rightarrow> u32 \<Rightarrow> int \<Rightarrow> int \<Rightarrow> u32 \<Rightarrow> (nat \<times> nat) list
     \<Rightarrow> (memory \<times> u32 \<times> (nat \<times> nat) list) option" where
  "pad_loop dest copied_bytes bytes_to_copy remaining_frames frame_number bytes_per_frame copies =
     (if remaining_frames > 0 then
        let to_copy = (if remaining_frames < frame_number
                       then word_of_int remaining_frames * bytes_per_frame
                       else bytes_to_copy)
        in pad_loop (memcpy dest (unat copied_bytes) dest 0 (unat to_copy))
             (copied_bytes + to_copy) to_copy (remaining_frames - frame_number)
             frame_number bytes_per_frame (copies @ [(unat copied_bytes, unat to_copy)])
      else Some (dest, copied_bytes, copies))"

declare pad_loop.simps [code]

record padding =
  pad_dest :: memory
  pad_end :: u32
  pad_copies :: "(nat \<times> nat) list"
  pad_stderr :: "string list"

definition no_frames_message :: string where
  "no_frames_message = ''No frames received after seek.'' @ [CHR 0x0A]"

definition loop_to_buffer_end :: "memory \<Rightarrow> u32 \<Rightarrow> int \<Rightarrow> u32 \<Rightarrow> int \<Rightarrow> padding option" where
  "loop_to_buffer_end dest copied_bytes frame_number bytes_per_frame num_requested_frames =
     (if frame_number = 0 then
        Some \<lparr>pad_dest = dest, pad_end = copied_bytes, pad_copies = [],
              pad_stderr = [no_frames_message]\<rparr>
      else
        (case pad_loop dest copied_bytes copied_bytes (num_requested_frames - frame_number)
                frame_number bytes_per_frame [] of
           None \<Rightarrow> None
         | Some (d, c, l) \<Rightarrow>
             Some \<lparr>pad_dest = d, pad_end = c, pad_copies = l, pad_stderr = []\<rparr>))"

section \<open>The samplers\<close>

text \<open>
  How a call ends: it returns, an \<^verbatim>\<open>assert\<close> fails (the process aborts; assertions
  are compiled in), an integer division by zero traps, the target list is read past
  its end, or the padding loop does not return.
\<close>

datatype exit = Returned | AssertFailed | DivisionByZero | OutOfBounds | Diverged

text \<open>The local variables of a sampling call, with the buffer and the stream context.\<close>

record sampler_state =
  dest :: memory
  vid_ctx :: video_stream_context
  copied_bytes :: u32
  current_frame_index :: int
  out_frame_index :: int
  prev_pts :: int
  stderr :: "string list"

definition pad_and_exit :: "sampler_state \<Rightarrow> int \<Rightarrow> u32 \<Rightarrow> int \<Rightarrow> exit \<times> sampler_state" where
  "pad_and_exit s frame_number bytes_per_frame num_requested_frames =
     (case loop_to_buffer_end (dest s) (copied_bytes s) frame_number bytes_per_frame
             num_requested_frames of
        None \<Rightarrow> (Diverged, s)
      | Some r \<Rightarrow> (Returned, s\<lparr>dest := pad_dest r, stderr := stderr s @ pad_stderr r\<rparr>))"

definition pack_frame :: "sampler_state \<Rightarrow> u32 \<Rightarrow> sampler_state" where
  "pack_frame s bytes_per_row =
     (case copy_next_frame (dest s) (vid_ctx s) (copied_bytes s) bytes_per_row of
        (d, c) \<Rightarrow> s\<lparr>dest := d, copied_bytes := c\<rparr>)"

subsection \<open>Sequential decoding: \<^verbatim>\<open>decode_video_to_out_buffer\<close>\<close>

function out_buffer_loop :: "int \<Rightarrow> u32 \<Rightarrow> u32 \<Rightarrow> int \<Rightarrow> sampler_state \<Rightarrow> exit \<times> sampler_state" where
  "out_buffer_loop num_requested_frames bytes_per_row bytes_per_frame frame_number s =
     (if frame_number < num_requested_frames then
        (case receive_frame (vid_ctx s) of
           (st, ctx') \<Rightarrow>
             if st = VID_DECODE_EOF then
               pad_and_exit (s\<lparr>vid_ctx := ctx'\<rparr>) frame_number bytes_per_frame
                 num_requested_frames
             else if st \<noteq> VID_DECODE_SUCCESS then (AssertFailed, s\<lparr>vid_ctx := ctx'\<rparr>)
             else out_buffer_loop num_requested_frames bytes_per_row bytes_per_frame
                    (frame_number + 1) (pack_frame (s\<lparr>vid_ctx := ctx'\<rparr>) bytes_per_row))
      else (Returned, s))"
  by pat_completeness auto
termination
  by (relation "measure (\<lambda>(n, r, f, k, s). nat (n - k))") auto

definition initial_state :: "memory \<Rightarrow> video_stream_context \<Rightarrow> sampler_state" where
  "initial_state d ctx =
     \<lparr>dest = d, vid_ctx = ctx, copied_bytes = 0, current_frame_index = 0,
      out_frame_index = 0, prev_pts = 0, stderr = []\<rparr>"

definition row_bytes :: "video_stream_context \<Rightarrow> u32" where
  "row_bytes ctx = word_of_int (3 * width ctx)"

definition frame_bytes :: "video_stream_context \<Rightarrow> u32" where
  "frame_bytes ctx = row_bytes ctx * word_of_int (height ctx)"

text \<open>
  \<^verbatim>\<open>allocate_rgb_image\<close>: the temporary RGB frame, or \<^verbatim>\<open>NULL\<close> (here \<open>False\<close>) when
  the frame or its image buffer cannot be allocated.
\<close>

definition allocate_rgb_image :: "video_stream_context \<Rightarrow> bool" where
  "allocate_rgb_image ctx =
     (if \<not> frame_alloc_available ctx then False
      else if image_alloc_status ctx < 0 then False
      else True)"

text \<open>
  \<^verbatim>\<open>decode_video_to_out_buffer\<close> sets up the scaling context and the temporary frame
  and asserts both before it looks at \<open>num_requested_frames\<close>; only then does the loop
  run.
\<close>

definition decode_video_to_out_buffer ::
  "memory \<Rightarrow> video_stream_context \<Rightarrow> int \<Rightarrow> exit \<times> sampler_state" where
  "decode_video_to_out_buffer d ctx num_requested_frames =
     (if \<not> sws_context_available ctx then (AssertFailed, initial_state d ctx)
      else if \<not> allocate_rgb_image ctx then (AssertFailed, initial_state d ctx)
      else
        out_buffer_loop num_requested_frames (row_bytes ctx) (frame_bytes ctx) 0
          (initial_state d ctx))"

subsection \<open>Sampling a list of frame numbers: \<^verbatim>\<open>decode_video_from_frame_nums\<close>\<close>

text \<open>
  The body of the average-duration scan loop after a frame was received: the running
  index and the last counted timestamp advance together.
\<close>

definition advance_index :: "sampler_state \<Rightarrow> sampler_state" where
  "advance_index s =
     (if pts (frame (vid_ctx s)) > prev_pts s then
        s\<lparr>current_frame_index := current_frame_index s + 1,
          prev_pts := pts (frame (vid_ctx s))\<rparr>
      else s)"

text \<open>In raw-timebase mode the increment is commented out in the source.\<close>

definition advance_pts :: "sampler_state \<Rightarrow> sampler_state" where
  "advance_pts s =
     (if pts (frame (vid_ctx s)) > prev_pts s then
        s\<lparr>prev_pts := pts (frame (vid_ctx s))\<rparr>
      else s)"

text \<open>
  The two inner \<^verbatim>\<open>while\<close> loops. \<open>Inl\<close> is the way out through
  \<^verbatim>\<open>out_free_frame_rgb_and_sws\<close> or an abort, \<open>Inr\<close> the state with which the frame
  is packed.
\<close>

function scan_avg ::
  "int \<Rightarrow> u32 \<Rightarrow> int \<Rightarrow> sampler_state \<Rightarrow> (exit \<times> sampler_state) + sampler_state" where
  "scan_avg num_requested_frames bytes_per_frame desired_frame_num s =
     (if current_frame_index s \<le> desired_frame_num then
        (case receive_frame (vid_ctx s) of
           (st, ctx') \<Rightarrow>
             if st = VID_DECODE_EOF then
               Inl (pad_and_exit (s\<lparr>vid_ctx := ctx'\<rparr>) (out_frame_index s) bytes_per_frame
                      num_requested_frames)
             else if st \<noteq> VID_DECODE_SUCCESS then Inl (AssertFailed, s\<lparr>vid_ctx := ctx'\<rparr>)
             else scan_avg num_requested_frames bytes_per_frame desired_frame_num
                    (advance_index (s\<lparr>vid_ctx := ctx'\<rparr>)))
      else Inr s)"
  by pat_completeness auto
termination
  by (relation "measure (\<lambda>(n, b, d, s). length (upcoming (vid_ctx s)))")
     (auto simp: receive_frame_def advance_index_def split: list.splits decoded.splits)

function scan_raw ::
  "int \<Rightarrow> u32 \<Rightarrow> int \<Rightarrow> int \<Rightarrow> sampler_state \<Rightarrow> (exit \<times> sampler_state) + sampler_state" where
  "scan_raw num_requested_frames bytes_per_frame time_unit desired_frame_num s =
     (if pts (frame (vid_ctx s)) \<le> desired_frame_num * time_unit then
        (case receive_frame (vid_ctx s) of
           (st, ctx') \<Rightarrow>
             if st = VID_DECODE_EOF then
               Inl (pad_and_exit (s\<lparr>vid_ctx := ctx'\<rparr>) (out_frame_index s) bytes_per_frame
                      num_requested_frames)
             else if st \<noteq> VID_DECODE_SUCCESS then Inl (AssertFailed, s\<lparr>vid_ctx := ctx'\<rparr>)
             else scan_raw num_requested_frames bytes_per_frame time_unit desired_frame_num
                    (advance_pts (s\<lparr>vid_ctx := ctx'\<rparr>)))
      else Inr s)"
  by pat_completeness auto
termination
  by (relation "measure (\<lambda>(n, b, t, d, s). length (upcoming (vid_ctx s)))")
     (auto simp: receive_frame_def advance_pts_def split: list.splits decoded.splits)

text \<open>
  The outer \<^verbatim>\<open>for\<close> loop over the output slots. Reading \<open>frame_numbers\<close> past the
  end of the caller's array is an \<open>OutOfBounds\<close> exit.
\<close>

function sample_loop ::
  "int \<Rightarrow> int list \<Rightarrow> bool \<Rightarrow> int \<Rightarrow> u32 \<Rightarrow> u32 \<Rightarrow> sampler_state \<Rightarrow> exit \<times> sampler_state" where
  "sample_loop num_requested_frames frame_numbers use_frame time_unit bytes_per_row
       bytes_per_frame s =
     (if out_frame_index s < num_requested_frames then
        if out_frame_index s < 0 \<or> int (length frame_numbers) \<le> out_frame_index s then
          (OutOfBounds, s)
        else
          let desired_frame_num = frame_numbers ! nat (out_frame_index s) in
          if \<not> (desired_frame_num \<ge> current_frame_index s \<and> desired_frame_num \<ge> 0) then
            (AssertFailed, s)
          else if desired_frame_num > nb_frames (vid_ctx s) then
            pad_and_exit s (out_frame_index s) bytes_per_frame num_requested_frames
          else
            (case (if use_frame
                   then scan_avg num_requested_frames bytes_per_frame desired_frame_num s
                   else scan_raw num_requested_frames bytes_per_frame time_unit
                          desired_frame_num s) of
               Inl r \<Rightarrow> r
             | Inr s' \<Rightarrow>
                 sample_loop num_requested_frames frame_numbers use_frame time_unit
                   bytes_per_row bytes_per_frame
                   ((pack_frame s' bytes_per_row)\<lparr>out_frame_index := out_frame_index s + 1\<rparr>))
      else (Returned, s))"
  by pat_completeness auto
termination
  by (relation "measure (\<lambda>(n, fs, u, t, r, b, s). nat (n - out_frame_index s))") auto

text \<open>
  The block run when \<open>should_seek\<close> holds: seek to the first target, decode one frame,
  rebuild its index from its timestamp, and pack it when it is the first target.
\<close>

definition reconcile ::
  "int list \<Rightarrow> bool \<Rightarrow> int \<Rightarrow> u32 \<Rightarrow> sampler_state \<Rightarrow> (exit \<times> sampler_state) + sampler_state" where
  "reconcile frame_numbers use_frame time_unit bytes_per_row s =
     (if nb_frames (vid_ctx s) = 0 then Inl (DivisionByZero, s)
      else if frame_numbers = [] then Inl (OutOfBounds, s)
      else
        let avg_frame_duration = to_int32 (duration (vid_ctx s) sdiv nb_frames (vid_ctx s));
            timestamp = (if use_frame then frame_numbers ! 0 * avg_frame_duration
                         else frame_numbers ! 0 * time_unit)
        in
        (case av_seek_frame (vid_ctx s) timestamp of
           (seek_status, ctx1) \<Rightarrow>
             if \<not> seek_status \<ge> 0 then Inl (AssertFailed, s\<lparr>vid_ctx := ctx1\<rparr>)
             else
               (case receive_frame ctx1 of
                  (st, ctx2) \<Rightarrow>
                    if st = VID_DECODE_EOF then Inl (Returned, s\<lparr>vid_ctx := ctx2\<rparr>)
                    else if st \<noteq> VID_DECODE_SUCCESS then
                      Inl (AssertFailed, s\<lparr>vid_ctx := ctx2\<rparr>)
                    else if (if use_frame then avg_frame_duration = 0 else time_unit = 0) then
                      Inl (DivisionByZero, s\<lparr>vid_ctx := ctx2\<rparr>)
                    else
                      let index =
                            (if use_frame then
                               let i = to_int32 (pts (frame ctx2) sdiv avg_frame_duration)
                               in if i > frame_numbers ! 0 then frame_numbers ! 0 else i
                             else to_int32 (pts (frame ctx2)) sdiv time_unit);
                          s1 = s\<lparr>vid_ctx := ctx2, current_frame_index := index\<rparr>
                      in
                      if \<not> index \<le> frame_numbers ! 0 then Inl (AssertFailed, s1)
                      else
                        let s2 = (if index = frame_numbers ! 0
                                  then (pack_frame s1 bytes_per_row)
                                         \<lparr>out_frame_index := out_frame_index s1 + 1\<rparr>
                                  else s1)
                        in Inr (s2\<lparr>current_frame_index := index + 1,
                                   prev_pts := pts (frame ctx2)\<rparr>))))"

text \<open>
  \<^verbatim>\<open>decode_video_from_frame_nums\<close> returns on an empty request before anything else.
  Its own setup of the scaling context and the temporary frame comes after that return
  and is taken to succeed: the model describes the calls that get past it.
\<close>

definition decode_video_from_frame_nums ::
  "memory \<Rightarrow> video_stream_context \<Rightarrow> int \<Rightarrow> int list \<Rightarrow> bool \<Rightarrow> bool \<Rightarrow> exit \<times> sampler_state" where
  "decode_video_from_frame_nums d ctx num_requested_frames frame_numbers should_seek use_frame =
     (if num_requested_frames \<le> 0 then (Returned, initial_state d ctx)
      else if time_base_num ctx = 0 then (DivisionByZero, initial_state d ctx)
      else
        let time_unit = time_base_den ctx sdiv time_base_num ctx in
        if should_seek then
          (case reconcile frame_numbers use_frame time_unit (row_bytes ctx) (initial_state d ctx) of
             Inl r \<Rightarrow> r
           | Inr s \<Rightarrow>
               sample_loop num_requested_frames frame_numbers use_frame time_unit
                 (row_bytes ctx) (frame_bytes ctx) s)
        else
          sample_loop num_requested_frames frame_numbers use_frame time_unit
            (row_bytes ctx) (frame_bytes ctx) (initial_state d ctx))"

section \<open>The randomised seek planner\<close>

text \<open>
  FFmpeg's \<^verbatim>\<open>av_rescale_rnd(a, b, c, AV_ROUND_DOWN)\<close> computes \<open>a * b / c\<close> rounded
  towards minus infinity, without intermediate overflow.
\<close>

definition av_rescale_rnd_down :: "int \<Rightarrow> int \<Rightarrow> int \<Rightarrow> int" where
  "av_rescale_rnd_down a b c = (a * b) div c"

text \<open>
  The choice of the frame to seek to in \<^verbatim>\<open>seek_to_closest_keypoint\<close>: \<open>None\<close> where
  the source returns \<^verbatim>\<open>AV_NOPTS_VALUE\<close>. \<open>random\<close> is the value of \<^verbatim>\<open>rand()\<close>, which
  is never negative.
\<close>

definition seek_target :: "int \<Rightarrow> u32 \<Rightarrow> nat \<Rightarrow> int option" where
  "seek_target total_frames num_requested_frames random =
     (let valid_seek_frame_limit = total_frames - uint num_requested_frames in
      if valid_seek_frame_limit \<le> 0 then None
      else
        let timestamp = int random mod (valid_seek_frame_limit + 1) in
        if timestamp = 0 then None else Some (timestamp - 1))"

text \<open>
  The result is the way the call ends, the returned timestamp and the stream context.
  The seek distance in seconds, a floating-point diagnostic, is left out.
\<close>

definition seek_to_closest_keypoint ::
  "video_stream_context \<Rightarrow> bool \<Rightarrow> u32 \<Rightarrow> nat \<Rightarrow> exit \<times> int \<times> video_stream_context" where
  "seek_to_closest_keypoint ctx should_random_seek num_requested_frames random =
     (if \<not> should_random_seek then (Returned, 0, ctx)
      else
        let start = (if start_time ctx \<noteq> AV_NOPTS_VALUE then start_time ctx else 0) in
        (case seek_target (nb_frames ctx) num_requested_frames random of
           None \<Rightarrow> (Returned, AV_NOPTS_VALUE, ctx)
         | Some target \<Rightarrow>
             let timestamp =
                   av_rescale_rnd_down target (duration ctx) (nb_frames ctx) + start
             in
             (case av_seek_frame ctx timestamp of
                (seek_status, ctx') \<Rightarrow>
                  if \<not> seek_status \<ge> 0 then (AssertFailed, timestamp, ctx')
                  else (Returned, timestamp, ctx'))))"

text \<open>
  The loops are unfolded one iteration at a time, where a proof asks for it.
\<close>

declare copy_rows.simps [simp del]
declare out_buffer_loop.simps [simp del]
declare scan_avg.simps [simp del]
declare scan_raw.simps [simp del]
declare sample_loop.simps [simp del]

section \<open>Example inputs\<close>

text \<open>
  Concrete buffers and streams on which the theorems below are instantiated: a
  100-byte input at cursor 0, memories with a constant, a marked or a counting
  content, and a clip of \<open>n\<close> frames 512 ticks apart (time base 1/12800, pictures of
  2 by 2 pixels, frame \<open>i\<close> filled with the byte \<open>i + 1\<close>) on which every seek lands on
  frame \<open>land\<close>.
\<close>

definition example_input :: buffer_data where
  "example_input = \<lparr>ptr = zero_memory, offset_bytes = 0, total_size_bytes = 100\<rparr>"

definition solid :: "byte \<Rightarrow> memory" where
  "solid c i = c"

definition marked_memory :: memory where
  "marked_memory i = (if i = 0 then 1 else 0)"

definition ramp :: memory where
  "ramp i = of_nat i"

definition test_frame :: "nat \<Rightarrow> av_frame" where
  "test_frame i = \<lparr>pts = int i * 512, rgb = solid (of_nat (i + 1))\<rparr>"

definition test_pictures :: "nat \<Rightarrow> nat \<Rightarrow> decoded list" where
  "test_pictures i n = map (\<lambda>k. Picture (test_frame k)) [i..<n]"

definition landing :: "nat \<Rightarrow> nat \<Rightarrow> int \<Rightarrow> decoded list option" where
  "landing n land t = Some (test_pictures land n)"

definition clip :: "nat \<Rightarrow> nat \<Rightarrow> video_stream_context" where
  "clip n land =
     \<lparr>frame = \<lparr>pts = AV_NOPTS_VALUE, rgb = zero_memory\<rparr>,
      upcoming = test_pictures 0 n, seek_table = landing n land, decode_calls = 0,
      duration = int n * 512, nb_frames = int n, start_time = AV_NOPTS_VALUE,
      time_base_num = 1, time_base_den = 12800, width = 2, height = 2, linesize = 32,
      sws_context_available = True, frame_alloc_available = True, image_alloc_status = 0\<rparr>"

text \<open>
  The 100-frame clip for whose pictures no scaling context can be had, and a clip of
  ten frames whose decoder delivers frames 0 and 1 and then starts again from frame 1,
  so that the timestamp 512 comes twice in a row.
\<close>

definition unscalable_clip :: video_stream_context where
  "unscalable_clip = (clip 100 0)\<lparr>sws_context_available := False\<rparr>"

definition stuttering_clip :: video_stream_context where
  "stuttering_clip = (clip 10 0)\<lparr>upcoming := test_pictures 0 2 @ test_pictures 1 10\<rparr>"

section \<open>Notions used to state the properties\<close>

text \<open>
  The buffer after the bytes from \<open>lo\<close> up to \<open>hi\<close> were filled with repetitions of
  its first \<open>cycle\<close> bytes.
\<close>

definition replayed :: "memory \<Rightarrow> nat \<Rightarrow> nat \<Rightarrow> nat \<Rightarrow> memory" where
  "replayed m lo hi cycle i =
     (if lo \<le> i \<and> i < hi then m ((i - lo) mod cycle) else m i)"


text \<open>A byte of the buffer after padding, when the padding returns.\<close>

definition pad_byte :: "padding option \<Rightarrow> nat \<Rightarrow> byte option" where
  "pad_byte r i = map_option (\<lambda>p. pad_dest p i) r"

text \<open>
  The state in which a scan or the seek block ends, whichever way it ends, and the
  results of \<^verbatim>\<open>receive_frame\<close> consumed between two states of a call.
\<close>

definition scan_end :: "(exit \<times> sampler_state) + sampler_state \<Rightarrow> sampler_state" where
  "scan_end r = (case r of Inl (e, s) \<Rightarrow> s | Inr s \<Rightarrow> s)"

definition scanned :: "sampler_state \<Rightarrow> sampler_state \<Rightarrow> decoded list" where
  "scanned s s' =
     take (decode_calls (vid_ctx s') - decode_calls (vid_ctx s)) (upcoming (vid_ctx s))"

fun picture_pts :: "decoded list \<Rightarrow> int list" where
  "picture_pts [] = []"
| "picture_pts (Picture f # ds) = pts f # picture_pts ds"
| "picture_pts (DecodeError # ds) = picture_pts ds"

text \<open>
  The duplicate filter in the words of the specification: of a sequence of timestamps,
  those count that are strictly greater than the last one counted.
\<close>

fun pts_advances :: "int \<Rightarrow> int list \<Rightarrow> nat" where
  "pts_advances last_counted [] = 0"
| "pts_advances last_counted (p # ps) =
     (if p > last_counted then Suc (pts_advances p ps) else pts_advances last_counted ps)"

section \<open>Properties of the I/O adapter\<close>

lemma to_int32_id: "- (2 ^ 31) \<le> x \<Longrightarrow> x < 2 ^ 31 \<Longrightarrow> to_int32 x = x"
  unfolding to_int32_def by (simp add: signed_take_bit_int_eq_self)

text \<open>
  What each \<open>whence\<close> does, for any offset. \<^verbatim>\<open>SEEK_SET\<close>, \<^verbatim>\<open>SEEK_CUR\<close> and
  \<^verbatim>\<open>AVSEEK_SIZE\<close> follow the conventions of \<^verbatim>\<open>fseek\<close> (on the offset narrowed to 32
  bits); \<^verbatim>\<open>SEEK_END\<close> subtracts the offset from the size.
\<close>

lemma seek_memory_SEEK_SET:
  "seek_memory b off SEEK_SET = (to_int32 off, b\<lparr>offset_bytes := to_int32 off\<rparr>)"
  by (simp add: seek_memory_def Let_def SEEK_SET_def SEEK_CUR_def SEEK_END_def)

lemma seek_memory_SEEK_CUR:
  "seek_memory b off SEEK_CUR =
     (offset_bytes b + to_int32 off, b\<lparr>offset_bytes := offset_bytes b + to_int32 off\<rparr>)"
  by (simp add: seek_memory_def Let_def)

lemma seek_memory_AVSEEK_SIZE:
  "seek_memory b off AVSEEK_SIZE = (total_size_bytes b, b)"
  by (simp add: seek_memory_def Let_def SEEK_SET_def SEEK_CUR_def SEEK_END_def AVSEEK_SIZE_def)

lemma seek_memory_SEEK_END:
  "seek_memory b off SEEK_END =
     (total_size_bytes b - to_int32 off,
      b\<lparr>offset_bytes := total_size_bytes b - to_int32 off\<rparr>)"
  by (simp add: seek_memory_def Let_def SEEK_CUR_def SEEK_END_def)

text \<open>
  Claim C9 (the seek adapter follows the file-seek conventions; \<^verbatim>\<open>SEEK_END\<close> sets the
  cursor to \<open>total_size + offset\<close>). The code at \<^verbatim>\<open>SEEK_END\<close> with offset \<open>-10\<close> on a
  100-byte input: the cursor becomes 110, ten bytes past the end, where the convention
  gives \<open>100 + (-10) = 90\<close>.
\<close>

theorem seek_memory_end_subtracts_offset:
  "seek_memory example_input (- 10) SEEK_END = (110, example_input\<lparr>offset_bytes := 110\<rparr>)
   \<and> total_size_bytes example_input + (- 10) = 90"
  by (simp add: seek_memory_SEEK_END to_int32_id example_input_def)

text \<open>
  Claim C10: a call of \<^verbatim>\<open>read_memory\<close> with the cursor inside the input
  (\<open>0 \<le> offset_bytes \<le> total_size_bytes\<close>) and a requested size that is not negative
  copies exactly \<open>min max_len (total_size_bytes - offset_bytes)\<close> bytes from the cursor
  to the start of the destination, leaves the rest of the destination alone, advances
  the cursor by that count and returns it. The bytes copied lie before
  \<open>total_size_bytes\<close>, and the result does not depend on the bytes of the source at or
  past \<open>total_size_bytes\<close>. At the end of the input the call returns 0 and changes
  nothing.
\<close>

theorem read_memory_copies_available_bytes:
  fixes b :: buffer_data and buffer :: memory and max_len :: int
  assumes "0 \<le> offset_bytes b" and "offset_bytes b \<le> total_size_bytes b" and "0 \<le> max_len"
  defines "count \<equiv> min max_len (total_size_bytes b - offset_bytes b)"
  defines "buffer' \<equiv> memcpy buffer 0 (ptr b) (nat (offset_bytes b)) (nat count)"
  shows "read_memory b buffer max_len =
           Some (count, buffer', b\<lparr>offset_bytes := offset_bytes b + count\<rparr>)
         \<and> (\<forall>i. int i < count \<longrightarrow> buffer' i = ptr b (nat (offset_bytes b) + i))
         \<and> (\<forall>i. count \<le> int i \<longrightarrow> buffer' i = buffer i)
         \<and> 0 \<le> count \<and> offset_bytes b + count \<le> total_size_bytes b
         \<and> (\<forall>src. (\<forall>i. int i < total_size_bytes b \<longrightarrow> src i = ptr b i) \<longrightarrow>
               read_memory (b\<lparr>ptr := src\<rparr>) buffer max_len =
                 Some (count, buffer', b\<lparr>ptr := src, offset_bytes := offset_bytes b + count\<rparr>))
         \<and> (offset_bytes b = total_size_bytes b \<longrightarrow>
               read_memory b buffer max_len = Some (0, buffer, b))"
proof -
  have cnt: "0 \<le> count" "offset_bytes b + count \<le> total_size_bytes b"
    using assms(1-3) by (auto simp: count_def)
  have run: "read_memory b buffer max_len =
               Some (count, buffer', b\<lparr>offset_bytes := offset_bytes b + count\<rparr>)"
    using assms(1-3) by (auto simp: read_memory_def Let_def count_def buffer'_def min_def)
  have copied: "\<forall>i. int i < count \<longrightarrow> buffer' i = ptr b (nat (offset_bytes b) + i)"
    by (auto simp: buffer'_def memcpy_def)
  have kept: "\<forall>i. count \<le> int i \<longrightarrow> buffer' i = buffer i"
    by (auto simp: buffer'_def memcpy_def)
  have indep: "read_memory (b\<lparr>ptr := src\<rparr>) buffer max_len =
                 Some (count, buffer', b\<lparr>ptr := src, offset_bytes := offset_bytes b + count\<rparr>)"
    if same: "\<forall>i. int i < total_size_bytes b \<longrightarrow> src i = ptr b i" for src
  proof -
    have "memcpy buffer 0 src (nat (offset_bytes b)) (nat count) = buffer'"
    proof
      fix i
      show "memcpy buffer 0 src (nat (offset_bytes b)) (nat count) i = buffer' i"
      proof (cases "i < nat count")
        case True
        then have "int (nat (offset_bytes b) + i) < total_size_bytes b"
          using cnt assms(1) by linarith
        with same True show ?thesis by (simp add: memcpy_def buffer'_def)
      next
        case False
        then show ?thesis by (simp add: memcpy_def buffer'_def)
      qed
    qed
    then show ?thesis
      using assms(1-3) by (auto simp: read_memory_def Let_def count_def min_def)
  qed
  have at_end: "read_memory b buffer max_len = Some (0, buffer, b)"
    if "offset_bytes b = total_size_bytes b"
  proof -
    from that assms(3) have "count = 0" by (simp add: count_def)
    moreover have "memcpy buffer 0 (ptr b) (nat (offset_bytes b)) 0 = buffer"
      by (rule ext) (simp add: memcpy_def)
    ultimately show ?thesis using run by (simp add: buffer'_def)
  qed
  from cnt run copied kept indep at_end show ?thesis by blast
qed

text \<open>
  A read of 10 bytes at cursor 95 of a 100-byte input whose byte \<open>i\<close> is \<open>i\<close>: 5 bytes
  are copied, the last of them byte 99, and the cursor ends at 100.
\<close>

theorem read_memory_copies_available_bytes_witness:
  "(0::int) \<le> 95 \<and> (95::int) \<le> 100 \<and> (0::int) \<le> 10
   \<and> read_memory \<lparr>ptr = ramp, offset_bytes = 95, total_size_bytes = 100\<rparr> zero_memory 10 =
       Some (5, memcpy zero_memory 0 ramp 95 5,
             \<lparr>ptr = ramp, offset_bytes = 100, total_size_bytes = 100\<rparr>)
   \<and> memcpy zero_memory 0 ramp 95 5 4 = 99
   \<and> memcpy zero_memory 0 ramp 95 5 5 = 0"
  using read_memory_copies_available_bytes
          [where b = "\<lparr>ptr = ramp, offset_bytes = 95, total_size_bytes = 100\<rparr>"
             and max_len = 10 and buffer = zero_memory]
  by (simp add: memcpy_def ramp_def zero_memory_def)

section \<open>Properties of the seek planner\<close>

lemma seek_target_range:
  assumes "seek_target total_frames R r = Some t"
  shows "0 \<le> t \<and> t \<le> total_frames - uint R - 1"
proof -
  let ?lim = "total_frames - uint R"
  from assms have pos: "0 < ?lim"
    by (auto simp: seek_target_def Let_def split: if_splits)
  from assms have t: "t = int r mod (?lim + 1) - 1" and nz: "int r mod (?lim + 1) \<noteq> 0"
    by (auto simp: seek_target_def Let_def split: if_splits)
  have "0 < ?lim + 1" using pos by simp
  then have "0 \<le> int r mod (?lim + 1)" "int r mod (?lim + 1) < ?lim + 1"
    by (rule pos_mod_sign, rule pos_mod_bound)
  with t nz show ?thesis by linarith
qed

text \<open>
  Claim C4: with \<open>should_random_seek\<close> set, for every total frame count \<open>T\<close>, request
  size \<open>R\<close> and random draw, the planner either returns the no-seek sentinel
  \<^verbatim>\<open>AV_NOPTS_VALUE\<close> or seeks to a frame index \<open>t\<close> with \<open>0 \<le> t \<le> T - R - 1\<close>. When
  \<open>T - R \<le> 0\<close> it returns the sentinel. When it seeks, the timestamp it seeks to and
  returns is \<open>t * duration / T\<close> rounded down, plus the start time (0 when the stream has
  none); the call aborts on its assertion when the seek itself fails.
\<close>

theorem seek_planner_target_in_window:
  fixes ctx :: video_stream_context and R :: u32 and r :: nat
  defines "T \<equiv> nb_frames ctx"
  defines "start \<equiv> (if start_time ctx \<noteq> AV_NOPTS_VALUE then start_time ctx else 0)"
  shows "(T - uint R \<le> 0 \<longrightarrow>
            seek_to_closest_keypoint ctx True R r = (Returned, AV_NOPTS_VALUE, ctx))
       \<and> (seek_target T R r = None \<longrightarrow>
            seek_to_closest_keypoint ctx True R r = (Returned, AV_NOPTS_VALUE, ctx))
       \<and> (\<forall>t. seek_target T R r = Some t \<longrightarrow>
            0 \<le> t \<and> t \<le> T - uint R - 1 \<and>
            seek_to_closest_keypoint ctx True R r =
              (case seek_table ctx ((t * duration ctx) div T + start) of
                 None \<Rightarrow> (AssertFailed, (t * duration ctx) div T + start, ctx)
               | Some fs \<Rightarrow>
                   (Returned, (t * duration ctx) div T + start, ctx\<lparr>upcoming := fs\<rparr>)))"
proof (intro conjI allI impI)
  assume "T - uint R \<le> 0"
  then have "seek_target T R r = None" by (simp add: seek_target_def)
  then show "seek_to_closest_keypoint ctx True R r = (Returned, AV_NOPTS_VALUE, ctx)"
    by (simp add: seek_to_closest_keypoint_def T_def)
next
  assume "seek_target T R r = None"
  then show "seek_to_closest_keypoint ctx True R r = (Returned, AV_NOPTS_VALUE, ctx)"
    by (simp add: seek_to_closest_keypoint_def T_def)
next
  fix t assume t: "seek_target T R r = Some t"
  from seek_target_range [OF t] show "0 \<le> t" and "t \<le> T - uint R - 1" by simp_all
  from t show "seek_to_closest_keypoint ctx True R r =
              (case seek_table ctx ((t * duration ctx) div T + start) of
                 None \<Rightarrow> (AssertFailed, (t * duration ctx) div T + start, ctx)
               | Some fs \<Rightarrow>
                   (Returned, (t * duration ctx) div T + start, ctx\<lparr>upcoming := fs\<rparr>))"
    by (simp add: seek_to_closest_keypoint_def T_def start_def av_rescale_rnd_down_def
          av_seek_frame_def Let_def split: option.splits)
qed

text \<open>
  With 30 frames and 30 requested, the sentinel. With 100 frames, 10 requested and the
  draw 400: \<open>400 mod 91 = 36\<close>, target frame 35 of at most 89, timestamp
  \<open>35 * 51200 div 100 = 17920\<close>.
\<close>

theorem seek_planner_target_in_window_witness:
  "seek_to_closest_keypoint (clip 30 0) True 30 12345 = (Returned, AV_NOPTS_VALUE, clip 30 0)
   \<and> seek_target (nb_frames (clip 100 7)) 10 400 = Some 35
   \<and> (0::int) \<le> 35 \<and> (35::int) \<le> 100 - 10 - 1
   \<and> seek_to_closest_keypoint (clip 100 7) True 10 400 =
        (Returned, 17920, (clip 100 7)\<lparr>upcoming := test_pictures 7 100\<rparr>)"
  using seek_planner_target_in_window [where ctx = "clip 30 0" and R = 30 and r = 12345]
        seek_planner_target_in_window [where ctx = "clip 100 7" and R = 10 and r = 400]
  by (simp add: clip_def seek_target_def landing_def)

section \<open>Properties of packing\<close>






section \<open>Properties of padding\<close>

lemma unat_u32_of_nat: "x < 2 ^ 32 \<Longrightarrow> unat (of_nat x :: u32) = x"
  by (simp add: unat_of_nat)

lemma u32_of_int_times: "word_of_int (int m) * (w :: u32) = of_nat (m * unat w)"
  by simp

lemma replayed_empty: "hi \<le> lo \<Longrightarrow> replayed m lo hi cycle = m"
  by (rule ext) (auto simp: replayed_def)

lemma replayed_last:
  assumes "len \<le> cycle"
  shows "memcpy m lo m 0 len = replayed m lo (lo + len) cycle"
proof
  fix i
  show "memcpy m lo m 0 len i = replayed m lo (lo + len) cycle i"
    using assms by (auto simp: memcpy_def replayed_def)
qed

lemma replayed_step:
  assumes "0 < cycle" and "cycle \<le> lo" and that: "lo + cycle \<le> hi"
  shows "replayed (memcpy m lo m 0 cycle) (lo + cycle) hi cycle = replayed m lo hi cycle"
proof
  fix i
  let ?d1 = "memcpy m lo m 0 cycle"
  show "replayed ?d1 (lo + cycle) hi cycle i = replayed m lo hi cycle i"
  proof (cases "lo + cycle \<le> i \<and> i < hi")
    case True
    let ?j = "(i - (lo + cycle)) mod cycle"
    have "?j < cycle" using assms(1) by simp
    then have "?j < lo" using assms(2) by simp
    then have "?d1 ?j = m ?j" by (simp add: memcpy_def)
    moreover have "(i - lo) mod cycle = ?j"
    proof -
      have "i - lo = (i - (lo + cycle)) + cycle" using True by simp
      then show ?thesis by (metis mod_add_self2)
    qed
    ultimately show ?thesis using True by (simp add: replayed_def)
  next
    case False
    then show ?thesis using that by (auto simp: replayed_def memcpy_def)
  qed
qed

lemma iterations_step:
  fixes k r :: nat
  assumes "0 < k"
  shows "(r + k + k - 1) div k = Suc ((r + k - 1) div k)"
proof -
  have e: "r + k + k - 1 = (r + k - 1) + k" using assms by simp
  have "((r + k - 1) + k) div k = (r + k - 1) div k + 1"
    by (rule div_add_self2) (use assms in simp)
  then show ?thesis unfolding e by simp
qed

lemma pad_loop_fill:
  fixes bpf :: u32 and k f :: nat and r :: int
  assumes "0 < k" and "k \<le> f" and "(f + nat r) * unat bpf < 2 ^ 32"
  shows "pad_loop m (of_nat (f * unat bpf)) (of_nat (k * unat bpf)) r (int k) bpf cs =
           Some (replayed m (f * unat bpf) ((f + nat r) * unat bpf) (k * unat bpf),
                 of_nat ((f + nat r) * unat bpf),
                 cs @ map (\<lambda>i. ((f + i * k) * unat bpf, min (nat r - i * k) k * unat bpf))
                        [0..<(nat r + k - 1) div k])"
  using assms
proof (induction "nat r" arbitrary: m f r cs rule: less_induct)
  case less
  let ?b = "unat bpf"
  show ?case
  proof (cases "0 < r")
    case False
    then have "nat r = 0" by simp
    moreover have "(k - 1) div k = 0" using less.prems(1) by simp
    ultimately show ?thesis
      using False by (subst pad_loop.simps) (simp add: replayed_empty)
  next
    case True
    define q where "q = nat r"
    have q: "0 < q" "r = int q" using True by (simp_all add: q_def)
    have fit: "(f + q) * ?b < 2 ^ 32" using less.prems(3) by (simp add: q_def)
    have f_fit: "f * ?b < 2 ^ 32"
      by (rule le_less_trans [OF _ fit]) simp
    show ?thesis
    proof (cases "q \<le> k")
      case True
      have q_fit: "q * ?b < 2 ^ 32"
        by (rule le_less_trans [OF _ fit]) simp
      have k_fit: "q = k \<Longrightarrow> k * ?b < 2 ^ 32" using q_fit by simp
      have to_copy: "(if r < int k then word_of_int r * bpf else of_nat (k * ?b)) = (of_nat (q * ?b) :: u32)"
        using True q by (cases "q = k") simp_all
      have iters: "(q + k - 1) div k = 1"
      proof -
        have "k \<le> q + k - 1" "q + k - 1 < 2 * k" using q True by simp_all
        then show ?thesis
          by (metis One_nat_def Suc_1 div_nat_eqI mult.commute mult_2 nat_mult_1_right plus_1_eq_Suc)
      qed
      have mem: "memcpy m (f * ?b) m 0 (q * ?b) = replayed m (f * ?b) ((f + q) * ?b) (k * ?b)"
        using replayed_last [of "q * ?b" "k * ?b" m "f * ?b"] True
        by (simp add: add_mult_distrib)
      have "pad_loop m (of_nat (f * ?b)) (of_nat (k * ?b)) r (int k) bpf cs =
              pad_loop (memcpy m (f * ?b) m 0 (q * ?b)) (of_nat (f * ?b) + of_nat (q * ?b))
                (of_nat (q * ?b)) (r - int k) (int k) bpf (cs @ [(f * ?b, q * ?b)])"
        using \<open>0 < r\<close> to_copy f_fit q_fit
        by (subst pad_loop.simps) (simp add: Let_def unat_u32_of_nat del: of_nat_mult)
      also have "\<dots> = Some (memcpy m (f * ?b) m 0 (q * ?b), of_nat (f * ?b) + of_nat (q * ?b),
                             cs @ [(f * ?b, q * ?b)])"
        using True q by (subst pad_loop.simps) simp
      finally show ?thesis
        using mem iters True q by (simp add: q_def [symmetric] add_mult_distrib min_def)
    next
      case False
      then have kq: "k < q" by simp
      define r' where "r' = r - int k"
      have r': "nat r' = q - k" "nat r' < nat r" "0 < r'"
        using kq q less.prems(1) by (simp_all add: r'_def)
      have k_fit: "k * ?b < 2 ^ 32"
        by (rule le_less_trans [OF _ fit]) (use kq in simp)
      have fit': "(f + k + nat r') * ?b < 2 ^ 32"
        using fit kq r'(1) by simp
      have "pad_loop m (of_nat (f * ?b)) (of_nat (k * ?b)) r (int k) bpf cs =
              pad_loop (memcpy m (f * ?b) m 0 (k * ?b)) (of_nat ((f + k) * ?b))
                (of_nat (k * ?b)) r' (int k) bpf (cs @ [(f * ?b, k * ?b)])"
        using \<open>0 < r\<close> kq q f_fit k_fit
        by (subst pad_loop.simps)
           (simp add: Let_def unat_u32_of_nat r'_def add_mult_distrib del: of_nat_mult)
      also have "\<dots> = Some (replayed (memcpy m (f * ?b) m 0 (k * ?b)) ((f + k) * ?b)
                               ((f + k + nat r') * ?b) (k * ?b),
                             of_nat ((f + k + nat r') * ?b),
                             (cs @ [(f * ?b, k * ?b)]) @
                               map (\<lambda>i. ((f + k + i * k) * ?b, min (nat r' - i * k) k * ?b))
                                 [0..<(nat r' + k - 1) div k])"
        using less.hyps [OF r'(2) less.prems(1) _ fit'] less.prems(2) by simp
      finally have run: "pad_loop m (of_nat (f * ?b)) (of_nat (k * ?b)) r (int k) bpf cs =
          Some (replayed (memcpy m (f * ?b) m 0 (k * ?b)) ((f + k) * ?b)
                               ((f + k + nat r') * ?b) (k * ?b),
                             of_nat ((f + k + nat r') * ?b),
                             (cs @ [(f * ?b, k * ?b)]) @
                               map (\<lambda>i. ((f + k + i * k) * ?b, min (nat r' - i * k) k * ?b))
                                 [0..<(nat r' + k - 1) div k])" .
      have total: "f + k + nat r' = f + q" using kq r'(1) by simp
      have mem: "replayed (memcpy m (f * ?b) m 0 (k * ?b)) ((f + k) * ?b) ((f + q) * ?b) (k * ?b)
                   = replayed m (f * ?b) ((f + q) * ?b) (k * ?b)"
      proof (cases "?b = 0")
        case True
        then show ?thesis by (simp add: replayed_empty) (rule ext, simp add: memcpy_def)
      next
        case False
        have "replayed (memcpy m (f * ?b) m 0 (k * ?b)) (f * ?b + k * ?b) ((f + q) * ?b) (k * ?b)
                   = replayed m (f * ?b) ((f + q) * ?b) (k * ?b)"
        proof (rule replayed_step)
          show "0 < k * ?b" using False less.prems(1) by simp
          show "k * ?b \<le> f * ?b" using less.prems(2) by simp
          have "(f + k) * ?b \<le> (f + q) * ?b" using kq by simp
          then show "f * ?b + k * ?b \<le> (f + q) * ?b" by (simp add: add_mult_distrib)
        qed
        then show ?thesis by (simp add: add_mult_distrib)
      qed
      have iters: "(q + k - 1) div k = Suc ((nat r' + k - 1) div k)"
        using iterations_step [OF less.prems(1), of "nat r'"] kq r'(1) by simp
      have steps: "map (\<lambda>i. ((f + i * k) * ?b, min (q - i * k) k * ?b)) [0..<(q + k - 1) div k] =
                   (f * ?b, k * ?b) #
                   map (\<lambda>i. ((f + k + i * k) * ?b, min (nat r' - i * k) k * ?b))
                     [0..<(nat r' + k - 1) div k]"
        unfolding iters map_upt_Suc using kq r'(1)
        by (simp add: min_def add.assoc)
      show ?thesis
        unfolding run total q_def [symmetric] mem steps by simp
    qed
  qed
qed

lemma replayed_outside: "i < lo \<or> hi \<le> i \<Longrightarrow> replayed m lo hi c i = m i"
  by (auto simp: replayed_def)

lemma replayed_inside: "lo \<le> i \<Longrightarrow> i < hi \<Longrightarrow> replayed m lo hi c i = m ((i - lo) mod c)"
  by (simp add: replayed_def)

lemma frame_offset_small:
  fixes k j b x :: nat
  assumes "0 < k" and "x < b"
  shows "(j mod k) * b + x < k * b"
proof -
  have "j mod k + 1 \<le> k" using assms(1) by (simp add: Suc_leI)
  then have "(j mod k + 1) * b \<le> k * b" by (rule mult_le_mono1)
  then have "(j mod k) * b + b \<le> k * b" by (simp add: add_mult_distrib)
  with assms(2) show ?thesis by linarith
qed

lemma frame_offset_mod:
  fixes k j b x :: nat
  assumes "0 < k" and "x < b"
  shows "(j * b + x) mod (k * b) = (j mod k) * b + x"
proof -
  have "(j mod k) * b + b \<le> k * b"
  proof -
    have "j mod k + 1 \<le> k" using assms(1) by (simp add: Suc_leI)
    then have "(j mod k + 1) * b \<le> k * b" by (rule mult_le_mono1)
    then show ?thesis by (simp add: add_mult_distrib)
  qed
  with assms(2) have small: "(j mod k) * b + x < k * b" by linarith
  have "j * b + x = (j div k) * (k * b) + ((j mod k) * b + x)"
  proof -
    have "j * b = (j div k * k + j mod k) * b" by (simp only: div_mult_mod_eq)
    also have "\<dots> = (j div k) * (k * b) + (j mod k) * b"
      by (simp only: add_mult_distrib mult.assoc)
    finally show ?thesis by simp
  qed
  then have "(j * b + x) mod (k * b) = ((j mod k) * b + x) mod (k * b)"
    by (metis add.commute mod_mult_self1 mult.commute)
  with small show ?thesis by simp
qed

text \<open>
  Claim C1, as amended: when \<open>k \<ge> 1\<close> frames are in place
  (\<open>copied_bytes = k * bytes_per_frame\<close>), \<open>n > k\<close> frames are requested and the \<open>n\<close>
  frames fit the 32-bit byte counter (\<open>n * bytes_per_frame < 2 ^ 32\<close>), the padding
  returns with the write position at \<open>n * bytes_per_frame\<close>; the bytes of the \<open>k\<close> frames
  and the bytes past frame \<open>n\<close> are unchanged; every frame \<open>k + j < n\<close> equals frame
  \<open>j mod k\<close> byte for byte; and repetition \<open>i\<close> copies
  \<open>min (n - k - i * k) k * bytes_per_frame\<close> bytes from the start of the buffer to the
  write position \<open>(k + i * k) * bytes_per_frame\<close>, for \<open>(n - 1) div k\<close> repetitions, which
  is when no frame remains.
\<close>

theorem padding_replays_written_frames:
  fixes m :: memory and bpf :: u32 and k n :: nat
  assumes "1 \<le> k" and "k < n" and "n * unat bpf < 2 ^ 32"
  defines "b \<equiv> unat bpf"
  shows "\<exists>p. loop_to_buffer_end m (of_nat (k * b)) (int k) bpf (int n) = Some p
           \<and> unat (pad_end p) = n * b
           \<and> (\<forall>i. i < k * b \<or> n * b \<le> i \<longrightarrow> pad_dest p i = m i)
           \<and> (\<forall>j x. k + j < n \<and> x < b \<longrightarrow>
                 pad_dest p ((k + j) * b + x) = pad_dest p ((j mod k) * b + x))
           \<and> pad_copies p =
                 map (\<lambda>i. ((k + i * k) * b, min (n - k - i * k) k * b)) [0..<(n - 1) div k]
           \<and> pad_stderr p = []"
proof -
  let ?d = "replayed m (k * b) (n * b) (k * b)"
  define p where "p = \<lparr>pad_dest = ?d, pad_end = of_nat (n * b),
            pad_copies = map (\<lambda>i. ((k + i * k) * b, min (n - k - i * k) k * b)) [0..<(n - 1) div k],
            pad_stderr = []\<rparr>"
  have k: "0 < k" using assms(1) by simp
  have total: "k + nat (int n - int k) = n" using assms(2) by simp
  have iters: "(nat (int n - int k) + k - 1) div k = (n - 1) div k"
    using assms(2) by (simp add: nat_diff_distrib)
  have rem: "nat (int n - int k) = n - k" by (simp add: nat_diff_distrib)
  have total': "k + (n - k) = n" using assms(2) by simp
  have iters': "(n - k + k - 1) div k = (n - 1) div k" using assms(2) by simp
  have "pad_loop m (of_nat (k * unat bpf)) (of_nat (k * unat bpf)) (int n - int k) (int k) bpf [] =
          Some (replayed m (k * unat bpf) ((k + nat (int n - int k)) * unat bpf) (k * unat bpf),
                of_nat ((k + nat (int n - int k)) * unat bpf),
                [] @ map (\<lambda>i. ((k + i * k) * unat bpf,
                                  min (nat (int n - int k) - i * k) k * unat bpf))
                       [0..<(nat (int n - int k) + k - 1) div k])"
  proof (rule pad_loop_fill)
    show "0 < k" by (fact k)
    show "k \<le> k" by simp
    show "(k + nat (int n - int k)) * unat bpf < 2 ^ 32"
      using assms(3) by (simp only: total)
  qed
  then have "pad_loop m (of_nat (k * b)) (of_nat (k * b)) (int n - int k) (int k) bpf [] =
          Some (?d, of_nat (n * b),
                map (\<lambda>i. ((k + i * k) * b, min (n - k - i * k) k * b)) [0..<(n - 1) div k])"
    by (simp only: rem total' iters' append_Nil b_def)
  then have run: "loop_to_buffer_end m (of_nat (k * b)) (int k) bpf (int n) = Some p"
    using k by (simp add: loop_to_buffer_end_def p_def)
  have sel: "pad_dest p = ?d" "pad_end p = of_nat (n * b)" "pad_stderr p = []"
    "pad_copies p = map (\<lambda>i. ((k + i * k) * b, min (n - k - i * k) k * b)) [0..<(n - 1) div k]"
    by (simp_all add: p_def)
  have fin: "unat (of_nat (n * b) :: u32) = n * b"
    using assms(3) by (simp add: unat_u32_of_nat b_def del: of_nat_mult)
  have outside: "\<forall>i. i < k * b \<or> n * b \<le> i \<longrightarrow> ?d i = m i"
    by (intro allI impI) (rule replayed_outside)
  have frames: "?d ((k + j) * b + x) = ?d ((j mod k) * b + x)" if "k + j < n" and "x < b" for j x
  proof -
    have small: "(j mod k) * b + x < k * b"
      by (rule frame_offset_small [OF k that(2)])
    have old: "?d ((j mod k) * b + x) = m ((j mod k) * b + x)"
      by (rule replayed_outside) (use small in blast)
    have "(k + j + 1) * b \<le> n * b" using that(1) by (intro mult_le_mono1) simp
    then have "(k + j) * b + b \<le> n * b" by (simp add: add_mult_distrib)
    with that(2) have hi: "(k + j) * b + x < n * b" by linarith
    have lo: "k * b \<le> (k + j) * b + x" by (simp add: add_mult_distrib)
    have off: "(k + j) * b + x - k * b = j * b + x" by (simp add: add_mult_distrib)
    have "?d ((k + j) * b + x) = m (((k + j) * b + x - k * b) mod (k * b))"
      by (rule replayed_inside [OF lo hi])
    also have "\<dots> = m ((j mod k) * b + x)"
      by (simp only: off frame_offset_mod [OF k that(2)])
    finally show ?thesis by (simp only: old)
  qed
  show ?thesis
  proof (intro exI conjI allI impI)
    show "loop_to_buffer_end m (of_nat (k * b)) (int k) bpf (int n) = Some p" by (fact run)
    show "unat (pad_end p) = n * b" by (simp only: sel fin)
    show "pad_dest p i = m i" if "i < k * b \<or> n * b \<le> i" for i
      using outside that by (simp only: sel)
    show "pad_dest p ((k + j) * b + x) = pad_dest p ((j mod k) * b + x)"
      if "k + j < n \<and> x < b" for j x
      using frames [of j x] that by (simp only: sel)
    show "pad_copies p =
            map (\<lambda>i. ((k + i * k) * b, min (n - k - i * k) k * b)) [0..<(n - 1) div k]"
      by (fact sel)
    show "pad_stderr p = []" by (fact sel)
  qed
qed

text \<open>
  Two frames of three bytes in place, five requested, on the counting memory: the
  copies are 6 bytes to position 6 and 3 bytes to position 12; byte 13 (frame 4,
  byte 1) is byte 1 of frame 0; byte 16 is outside and unchanged.
\<close>

theorem padding_replays_written_frames_witness:
  "(1::nat) \<le> 2 \<and> (2::nat) < 5 \<and> 5 * unat (3::u32) < 2 ^ 32
   \<and> pad_byte (loop_to_buffer_end ramp 6 2 3 5) 13 = Some 1
   \<and> pad_byte (loop_to_buffer_end ramp 6 2 3 5) 16 = Some 16
   \<and> map_option pad_copies (loop_to_buffer_end ramp 6 2 3 5) = Some [(6, 6), (12, 3)]
   \<and> map_option pad_end (loop_to_buffer_end ramp 6 2 3 5) = Some 15"
proof -
  have h: "(1::nat) \<le> 2" "(2::nat) < 5" "5 * unat (3::u32) < 2 ^ 32" by simp_all
  from padding_replays_written_frames [OF h, of ramp]
  obtain p where run: "loop_to_buffer_end ramp 6 2 3 5 = Some p"
    and fin: "unat (pad_end p) = 15"
    and outside: "\<forall>i. i < 6 \<or> 15 \<le> i \<longrightarrow> pad_dest p i = ramp i"
    and frames: "\<forall>j x. 2 + j < 5 \<and> x < 3 \<longrightarrow> pad_dest p ((2 + j) * 3 + x) = pad_dest p ((j mod 2) * 3 + x)"
    and copies: "pad_copies p = map (\<lambda>i. ((2 + i * 2) * 3, min (5 - 2 - i * 2) 2 * 3)) [0..<(5 - 1) div 2]"
    by auto
  from frames [rule_format, of 2 1]
  have "pad_dest p 13 = pad_dest p 1" by simp
  with outside have b13: "pad_dest p 13 = 1" by (simp add: ramp_def)
  from outside have b16: "pad_dest p 16 = ramp 16" by simp
  have "[0..<(5 - 1) div 2] = [0, Suc 0]" by (simp add: upt_rec)
  with copies have cs: "pad_copies p = [(6, 6), (12, 3)]" by simp
  from arg_cong [OF fin, of "of_nat :: nat \<Rightarrow> u32"] have e: "pad_end p = 15" by simp
  show ?thesis using h run b13 b16 cs e by (simp add: pad_byte_def ramp_def)
qed

text \<open>
  Claim C1 as stated fails when the byte counter wraps around. With 100 frames of
  1920 by 1080 pixels in place (622080000 bytes) and 705 requested, the write position
  after six full repetitions is \<open>7 * 622080000 - 2 ^ 32 = 59592704\<close>, and the last five
  frames are copied there, over frames 9 to 14. Frame 700 is never written: on a buffer
  whose only non-zero byte is byte 0, its first byte stays 0, while the first byte of
  frame \<open>600 mod 100 = 0\<close> is 1.
\<close>

lemma wrapped_frame_700:
  "pad_byte (loop_to_buffer_end marked_memory 622080000 100 6220800 705) (700 * 6220800) = Some 0"
  by (simp add: pad_byte_def loop_to_buffer_end_def pad_loop.simps memcpy_def marked_memory_def)

lemma wrapped_frame_0:
  "pad_byte (loop_to_buffer_end marked_memory 622080000 100 6220800 705) (0 * 6220800) = Some 1"
  by (simp add: pad_byte_def loop_to_buffer_end_def pad_loop.simps memcpy_def marked_memory_def)

lemma wrapped_copies:
  "map_option pad_copies (loop_to_buffer_end marked_memory 622080000 100 6220800 705) =
     Some [(622080000, 622080000), (1244160000, 622080000), (1866240000, 622080000),
           (2488320000, 622080000), (3110400000, 622080000), (3732480000, 622080000),
           (59592704, 31104000)]"
  by (simp add: loop_to_buffer_end_def pad_loop.simps)

theorem padding_wraps_past_32_bits:
  "(1::int) \<le> 100 \<and> (100::int) < 705 \<and> (622080000::u32) = 100 * 6220800
   \<and> pad_byte (loop_to_buffer_end marked_memory 622080000 100 6220800 705) (700 * 6220800)
       = Some 0
   \<and> pad_byte (loop_to_buffer_end marked_memory 622080000 100 6220800 705) (0 * 6220800)
       = Some 1
   \<and> map_option pad_copies (loop_to_buffer_end marked_memory 622080000 100 6220800 705) =
       Some [(622080000, 622080000), (1244160000, 622080000), (1866240000, 622080000),
             (2488320000, 622080000), (3110400000, 622080000), (3732480000, 622080000),
             (59592704, 31104000)]"
  using wrapped_frame_700 wrapped_frame_0 wrapped_copies by simp

section \<open>Properties of the samplers\<close>

text \<open>
  Claim C8, as amended: a call of either entry point with \<open>num_requested_frames \<le> 0\<close>
  writes no byte of the output buffer, requests no frame from the decoder and reports
  nothing. \<^verbatim>\<open>decode_video_from_frame_nums\<close> returns at once.
  \<^verbatim>\<open>decode_video_to_out_buffer\<close> first sets up its scaling context and its temporary
  RGB frame: it returns normally when both are obtained, and fails the assertion on
  the one that is not otherwise.
\<close>

theorem empty_request_is_noop:
  assumes "num_requested_frames \<le> 0"
  shows "decode_video_from_frame_nums d ctx num_requested_frames frame_numbers should_seek use_frame
           = (Returned, initial_state d ctx)
       \<and> decode_video_to_out_buffer d ctx num_requested_frames =
           (if sws_context_available ctx \<and> frame_alloc_available ctx
                \<and> 0 \<le> image_alloc_status ctx
            then Returned else AssertFailed,
            initial_state d ctx)
       \<and> dest (initial_state d ctx) = d
       \<and> vid_ctx (initial_state d ctx) = ctx
       \<and> stderr (initial_state d ctx) = []"
  using assms
  by (simp add: decode_video_from_frame_nums_def decode_video_to_out_buffer_def
        allocate_rgb_image_def out_buffer_loop.simps initial_state_def)

text \<open>
  An empty request on the 100-frame clip, whose setup succeeds: both entry points
  return, and no frame was requested.
\<close>

theorem empty_request_is_noop_witness:
  "(0::int) \<le> 0
   \<and> decode_video_from_frame_nums marked_memory (clip 100 0) 0 [5, 6] True True
       = (Returned, initial_state marked_memory (clip 100 0))
   \<and> decode_video_to_out_buffer marked_memory (clip 100 0) 0
       = (Returned, initial_state marked_memory (clip 100 0))
   \<and> decode_calls (vid_ctx (initial_state marked_memory (clip 100 0))) = 0"
  using empty_request_is_noop [where num_requested_frames = 0 and d = marked_memory
          and ctx = "clip 100 0" and frame_numbers = "[5, 6]" and should_seek = True
          and use_frame = True]
  by (simp add: clip_def)

text \<open>
  Claim C8 as stated fails for \<^verbatim>\<open>decode_video_to_out_buffer\<close>: an empty request on a
  clip for which \<^verbatim>\<open>sws_getContext\<close> returns \<^verbatim>\<open>NULL\<close> fails the assertion on the scaling
  context, where the same request to \<^verbatim>\<open>decode_video_from_frame_nums\<close> returns. The
  buffer and the decoder are untouched in both.
\<close>

theorem empty_request_asserts_scaler:
  "(0::int) \<le> 0
   \<and> decode_video_to_out_buffer marked_memory unscalable_clip 0
       = (AssertFailed, initial_state marked_memory unscalable_clip)
   \<and> decode_video_from_frame_nums marked_memory unscalable_clip 0 [5, 6] False True
       = (Returned, initial_state marked_memory unscalable_clip)
   \<and> dest (initial_state marked_memory unscalable_clip) = marked_memory
   \<and> vid_ctx (initial_state marked_memory unscalable_clip) = unscalable_clip"
  by (simp add: decode_video_to_out_buffer_def decode_video_from_frame_nums_def
        unscalable_clip_def initial_state_def)

subsection \<open>Facts about the example inputs\<close>

lemma clip_fields [simp]:
  "duration (clip n land) = int n * 512" "nb_frames (clip n land) = int n"
  "time_base_num (clip n land) = 1" "time_base_den (clip n land) = 12800"
  "seek_table (clip n land) = landing n land" "decode_calls (clip n land) = 0"
  "upcoming (clip n land) = test_pictures 0 n" "start_time (clip n land) = AV_NOPTS_VALUE"
  "width (clip n land) = 2" "height (clip n land) = 2" "linesize (clip n land) = 32"
  "sws_context_available (clip n land)" "frame_alloc_available (clip n land)"
  "image_alloc_status (clip n land) = 0"
  by (simp_all add: clip_def)


lemma pts_test_frame [simp]: "pts (test_frame i) = int i * 512"
  by (simp add: test_frame_def)




subsection \<open>Padding without frames\<close>

text \<open>
  Claim C6, as amended: invoked with zero frames written, \<^verbatim>\<open>loop_to_buffer_end\<close> writes
  the diagnostic "No frames received after seek." and returns; the buffer is unchanged
  and no copy is made. It is not a failure of the call: the sampler that invoked it
  returns normally, as \<^verbatim>\<open>decode_video_to_out_buffer\<close> does, once its setup is
  done, on a stream that is at its end from the first frame on.
\<close>

theorem padding_without_frames_reports_and_returns:
  "loop_to_buffer_end m c 0 bpf n =
     Some \<lparr>pad_dest = m, pad_end = c, pad_copies = [], pad_stderr = [no_frames_message]\<rparr>
   \<and> pad_and_exit s 0 bpf n = (Returned, s\<lparr>stderr := stderr s @ [no_frames_message]\<rparr>)
   \<and> (upcoming ctx = [] \<and> 0 < n \<longrightarrow>
        decode_video_to_out_buffer d ctx n =
          (if sws_context_available ctx \<and> allocate_rgb_image ctx then
             (Returned, (initial_state d ctx)
                \<lparr>vid_ctx := ctx\<lparr>decode_calls := decode_calls ctx + 1\<rparr>,
                 stderr := [no_frames_message]\<rparr>)
           else (AssertFailed, initial_state d ctx)))"
  by (simp add: loop_to_buffer_end_def pad_and_exit_def decode_video_to_out_buffer_def
        out_buffer_loop.simps [of n _ _ 0] receive_frame_def initial_state_def)

text \<open>
  Two frames requested from the empty clip.
\<close>

theorem padding_without_frames_reports_and_returns_witness:
  "upcoming (clip 0 0) = [] \<and> (0::int) < 2
   \<and> decode_video_to_out_buffer zero_memory (clip 0 0) 2 =
       (Returned, (initial_state zero_memory (clip 0 0))
          \<lparr>vid_ctx := (clip 0 0)\<lparr>decode_calls := decode_calls (clip 0 0) + 1\<rparr>,
           stderr := [no_frames_message]\<rparr>)"
  using padding_without_frames_reports_and_returns [where ctx = "clip 0 0" and n = 2 and d = zero_memory]
  by (simp add: clip_def test_pictures_def allocate_rgb_image_def)

text \<open>
  Claim C6 as stated fails: three frames requested from the empty clip. The padding
  is invoked with zero frames written, and the call returns normally with the buffer
  as it was and the diagnostic as its only trace; no assertion fails.
\<close>

theorem padding_without_frames_is_not_fatal:
  "fst (decode_video_to_out_buffer marked_memory (clip 0 0) 3) = Returned
   \<and> dest (snd (decode_video_to_out_buffer marked_memory (clip 0 0) 3)) = marked_memory
   \<and> stderr (snd (decode_video_to_out_buffer marked_memory (clip 0 0) 3)) = [no_frames_message]"
  by (simp add: loop_to_buffer_end_def pad_and_exit_def decode_video_to_out_buffer_def
        out_buffer_loop.simps [of 3 _ _ 0] receive_frame_def initial_state_def clip_def
        test_pictures_def allocate_rgb_image_def)

subsection \<open>The scan loops\<close>

lemma pad_and_exit_keeps:
  "current_frame_index (snd (pad_and_exit s k b n)) = current_frame_index s"
  "vid_ctx (snd (pad_and_exit s k b n)) = vid_ctx s"
  "prev_pts (snd (pad_and_exit s k b n)) = prev_pts s"
  "out_frame_index (snd (pad_and_exit s k b n)) = out_frame_index s"
  by (simp_all add: pad_and_exit_def split: option.splits)

lemma pack_frame_keeps [simp]:
  "vid_ctx (pack_frame s b) = vid_ctx s"
  "current_frame_index (pack_frame s b) = current_frame_index s"
  "out_frame_index (pack_frame s b) = out_frame_index s"
  "prev_pts (pack_frame s b) = prev_pts s"
  "stderr (pack_frame s b) = stderr s"
  by (simp_all add: pack_frame_def split: prod.splits)

lemma scan_end_simps [simp]:
  "scan_end (Inl r) = snd r" "scan_end (Inr s) = s"
  by (simp_all add: scan_end_def split: prod.splits)

lemma scan_avg_counts:
  "decode_calls (vid_ctx s) \<le> decode_calls (vid_ctx (scan_end (scan_avg n b desired s)))
   \<and> current_frame_index (scan_end (scan_avg n b desired s)) =
       current_frame_index s +
       int (pts_advances (prev_pts s)
              (picture_pts (scanned s (scan_end (scan_avg n b desired s)))))"
proof (induction n b desired s rule: scan_avg.induct)
  case (1 n b desired s)
  let ?dc = "decode_calls (vid_ctx s)"
  show ?case
  proof (cases "current_frame_index s \<le> desired")
    case False
    then show ?thesis by (subst (1 2 3) scan_avg.simps) (simp add: scanned_def)
  next
    case running: True
    show ?thesis
    proof (cases "upcoming (vid_ctx s)")
      case Nil
      then show ?thesis
        using running
        by (subst (1 2 3) scan_avg.simps)
           (simp add: receive_frame_def pad_and_exit_keeps scanned_def)
    next
      case (Cons x rest)
      show ?thesis
      proof (cases x)
        case DecodeError
        with Cons running show ?thesis
          by (subst (1 2 3) scan_avg.simps) (simp add: receive_frame_def scanned_def)
      next
        case (Picture f)
        define ctx' where "ctx' = (vid_ctx s)\<lparr>frame := f, upcoming := rest, decode_calls := ?dc + 1\<rparr>"
        define s1 where "s1 = advance_index (s\<lparr>vid_ctx := ctx'\<rparr>)"
        have rf: "receive_frame (vid_ctx s) = (VID_DECODE_SUCCESS, ctx')"
          using Cons Picture by (simp add: receive_frame_def ctx'_def)
        have unfold: "scan_avg n b desired s = scan_avg n b desired s1"
          using running rf by (subst scan_avg.simps) (simp add: s1_def)
        let ?s' = "scan_end (scan_avg n b desired s1)"
        have s1: "vid_ctx s1 = ctx'"
                 "current_frame_index s1 = current_frame_index s + (if pts f > prev_pts s then 1 else 0)"
                 "prev_pts s1 = (if pts f > prev_pts s then pts f else prev_pts s)"
          by (simp_all add: s1_def advance_index_def ctx'_def)
        have ih: "decode_calls (vid_ctx s1) \<le> decode_calls (vid_ctx ?s')"
                 "current_frame_index ?s' = current_frame_index s1 +
                    int (pts_advances (prev_pts s1) (picture_pts (scanned s1 ?s')))"
          using "1.IH" [OF running rf [symmetric]] by (simp_all add: s1_def)
        have dc: "decode_calls (vid_ctx s1) = ?dc + 1" by (simp add: s1 ctx'_def)
        have sc: "scanned s ?s' = Picture f # scanned s1 ?s'"
        proof -
          have "decode_calls (vid_ctx ?s') - ?dc = Suc (decode_calls (vid_ctx ?s') - (?dc + 1))"
            using ih(1) dc by simp
          then show ?thesis
            using Cons Picture by (simp add: scanned_def s1 dc ctx'_def)
        qed
        show ?thesis
          unfolding unfold sc using ih dc by (simp add: s1)
      qed
    qed
  qed
qed



text \<open>
  Claim C5: in the average-duration scan loop a decoded frame advances the running
  frame index, by one, exactly when its timestamp is strictly greater than the last
  timestamp at which the index advanced (which then becomes that timestamp); otherwise
  the index stays. Over a whole scan, however it ends, the index does not decrease, and
  it grows by the number of scanned frames that pass this filter.
\<close>

theorem index_advances_only_on_new_pts:
  "current_frame_index (advance_index s) =
     current_frame_index s + (if prev_pts s < pts (frame (vid_ctx s)) then 1 else 0)
   \<and> prev_pts (advance_index s) = max (prev_pts s) (pts (frame (vid_ctx s)))
   \<and> current_frame_index s \<le> current_frame_index (scan_end (scan_avg n b desired s))
   \<and> current_frame_index (scan_end (scan_avg n b desired s)) =
       current_frame_index s +
       int (pts_advances (prev_pts s)
              (picture_pts (scanned s (scan_end (scan_avg n b desired s)))))"
proof -
  have step: "current_frame_index (advance_index s) =
     current_frame_index s + (if prev_pts s < pts (frame (vid_ctx s)) then 1 else 0)"
    "prev_pts (advance_index s) = max (prev_pts s) (pts (frame (vid_ctx s)))"
    by (simp_all add: advance_index_def)
  have count: "current_frame_index (scan_end (scan_avg n b desired s)) =
       current_frame_index s +
       int (pts_advances (prev_pts s)
              (picture_pts (scanned s (scan_end (scan_avg n b desired s)))))"
    using scan_avg_counts [of s n b desired] by blast
  then have "current_frame_index s \<le> current_frame_index (scan_end (scan_avg n b desired s))"
    by linarith
  with step count show ?thesis by blast
qed

text \<open>
  A scan for target 2 on the stuttering clip: five frames are decoded, with timestamps
  0, 512, 512, 1024 and 1536; three of them advance the index, which ends at 3.
\<close>

theorem index_advances_only_on_new_pts_witness:
  "picture_pts (take 5 (upcoming stuttering_clip)) = [0, 512, 512, 1024, 1536]
   \<and> pts_advances 0 [0, 512, 512, 1024, 1536] = 3
   \<and> decode_calls (vid_ctx (scan_end (scan_avg 3 12 2 (initial_state zero_memory stuttering_clip)))) = 5
   \<and> current_frame_index (scan_end (scan_avg 3 12 2 (initial_state zero_memory stuttering_clip))) = 3"
proof -
  let ?s = "initial_state zero_memory stuttering_clip"
  have calls: "decode_calls (vid_ctx (scan_end (scan_avg 3 12 2 ?s))) = 5"
    by code_simp
  have seen: "picture_pts (take 5 (upcoming stuttering_clip)) = [0, 512, 512, 1024, 1536]"
    by code_simp
  have adv: "pts_advances 0 [0, 512, 512, 1024, 1536] = 3" by simp
  have start: "current_frame_index ?s = 0" "prev_pts ?s = 0" "decode_calls (vid_ctx ?s) = 0"
    "upcoming (vid_ctx ?s) = upcoming stuttering_clip"
    by (simp_all add: initial_state_def stuttering_clip_def)
  have "scanned ?s (scan_end (scan_avg 3 12 2 ?s)) = take 5 (upcoming stuttering_clip)"
    by (simp add: scanned_def calls start)
  with index_advances_only_on_new_pts [of ?s 3 12 2] seen adv start
  have "current_frame_index (scan_end (scan_avg 3 12 2 ?s)) = 3" by simp
  with calls seen adv show ?thesis by simp
qed

subsection \<open>The seek block\<close>






subsection \<open>Repeated targets\<close>






end
